theory Spec2Isabelle
  imports Complex_Main
begin

section \<open>Request values and the Python operations applied to them\<close>

text \<open>
  The handlers of \<^verbatim>\<open>Inventory/views.py\<close> read their arguments out of
  \<^verbatim>\<open>request.data\<close>, a dictionary of decoded JSON values. A value is modelled by
  \<open>jval\<close>; a JSON number with a fraction is carried by its exact (rational) value.
\<close>

datatype jval =
    JNone
  | JBool bool
  | JInt int
  | JFloat rat
  | JStr string
  | JList "jval list"
  | JDict "(string \<times> jval) list"

type_synonym data = "string \<rightharpoonup> jval"

text \<open>Exceptions the handlers raise or let through, and what a handler produces.\<close>

datatype exn =
    ValidationError string string
  | NotFound string
  | Http404
  | ValueError
  | TypeError

text \<open>Python truthiness, as used by \<^verbatim>\<open>not x\<close> and \<^verbatim>\<open>x or y\<close>.\<close>

fun truthy :: "jval \<Rightarrow> bool" where
  "truthy JNone = False"
| "truthy (JBool b) = b"
| "truthy (JInt n) = (n \<noteq> 0)"
| "truthy (JFloat x) = (x \<noteq> 0)"
| "truthy (JStr s) = (s \<noteq> [])"
| "truthy (JList xs) = (xs \<noteq> [])"
| "truthy (JDict kvs) = (kvs \<noteq> [])"

definition py_or :: "jval \<Rightarrow> jval \<Rightarrow> jval" where
  "py_or a b = (if truthy a then a else b)"

text \<open>\<^verbatim>\<open>d.get(k)\<close> and \<^verbatim>\<open>d.get(k, default)\<close>.\<close>

definition dict_get :: "data \<Rightarrow> string \<Rightarrow> jval" where
  "dict_get d k = (case d k of None \<Rightarrow> JNone | Some v \<Rightarrow> v)"

definition dict_get_default :: "data \<Rightarrow> string \<Rightarrow> jval \<Rightarrow> jval" where
  "dict_get_default d k dflt = (case d k of None \<Rightarrow> dflt | Some v \<Rightarrow> v)"

subsection \<open>The builtin \<^verbatim>\<open>int()\<close>\<close>

text \<open>
  \<^verbatim>\<open>int(s)\<close> on a string strips surrounding whitespace, reads an optional sign and then
  decimal digits, in which single underscores may separate digits; anything else raises
  ValueError. Strings are ASCII here, and the interpreter's limit on the number of
  digits is not modelled.
\<close>

definition is_space :: "char \<Rightarrow> bool" where
  "is_space c = (c \<in> set [CHR '' '', CHR 0x09, CHR 0x0A, CHR 0x0B, CHR 0x0C, CHR 0x0D,
                           CHR 0x1C, CHR 0x1D, CHR 0x1E, CHR 0x1F])"

definition strip :: "string \<Rightarrow> string" where
  "strip s = rev (dropWhile is_space (rev (dropWhile is_space s)))"

definition digit_of :: "char \<Rightarrow> int option" where
  "digit_of c = map_of (zip ''0123456789'' [0, 1, 2, 3, 4, 5, 6, 7, 8, 9]) c"

fun digits_from :: "int \<Rightarrow> string \<Rightarrow> int option" where
  "digits_from acc [] = Some acc"
| "digits_from acc (c # cs) =
     (case digit_of c of
        Some d \<Rightarrow> digits_from (10 * acc + d) cs
      | None \<Rightarrow>
          (if c = CHR ''_'' then
             (case cs of
                [] \<Rightarrow> None
              | c' # _ \<Rightarrow> (if digit_of c' = None then None else digits_from acc cs))
           else None))"

definition digits :: "string \<Rightarrow> int option" where
  "digits s =
     (case s of
        [] \<Rightarrow> None
      | c # _ \<Rightarrow> (if digit_of c = None then None else digits_from 0 s))"

definition int_of_str :: "string \<Rightarrow> int option" where
  "int_of_str s =
     (case strip s of
        [] \<Rightarrow> None
      | c # cs \<Rightarrow>
          (if c = CHR ''-'' then map_option uminus (digits cs)
           else if c = CHR ''+'' then digits cs
           else digits (c # cs)))"

text \<open>\<^verbatim>\<open>int(x)\<close> on a float truncates toward zero.\<close>

definition trunc :: "rat \<Rightarrow> int" where
  "trunc x = (if 0 \<le> x then \<lfloor>x\<rfloor> else \<lceil>x\<rceil>)"

fun py_int :: "jval \<Rightarrow> exn + int" where
  "py_int JNone = Inl TypeError"
| "py_int (JBool b) = Inr (if b then 1 else 0)"
| "py_int (JInt n) = Inr n"
| "py_int (JFloat x) = Inr (trunc x)"
| "py_int (JStr s) = (case int_of_str s of None \<Rightarrow> Inl ValueError | Some n \<Rightarrow> Inr n)"
| "py_int (JList xs) = Inl TypeError"
| "py_int (JDict kvs) = Inl TypeError"

section \<open>The data model: \<^verbatim>\<open>Inventory/models.py\<close>\<close>

text \<open>
  One row of the table. \<open>pk\<close> is the primary key (\<^verbatim>\<open>id\<close>). The timestamp
  \<^verbatim>\<open>updated_at\<close> is left out: it only orders query results, and the table admits
  at most one row for a pair of \<^verbatim>\<open>product_id\<close> and \<^verbatim>\<open>shop_id\<close>
  (\<^verbatim>\<open>unique_together\<close>), so that \<^verbatim>\<open>first()\<close> has no choice to make. The integer fields
  are Python integers, without the range of the database column.
\<close>

record inventory =
  pk :: int
  product_id :: int
  shop_id :: int
  stock :: int
  reserved :: int
  threshold :: int
  meta :: jval

definition available :: "inventory \<Rightarrow> int" where
  "available self = max (stock self - reserved self) 0"

text \<open>The table is the list of its rows.\<close>

type_synonym store = "inventory list"

text \<open>
  A lookup value given to \<^verbatim>\<open>filter\<close> on an integer column is converted with
  \<^verbatim>\<open>int()\<close>, whose exception passes through; \<^verbatim>\<open>None\<close> matches no row.
\<close>

fun get_prep_value :: "jval \<Rightarrow> exn + int option" where
  "get_prep_value JNone = Inr None"
| "get_prep_value v = (case py_int v of Inl e \<Rightarrow> Inl e | Inr n \<Rightarrow> Inr (Some n))"

text \<open>\<^verbatim>\<open>Inventory.objects.filter(product_id=p, shop_id=s).first()\<close>\<close>

definition filter_first :: "store \<Rightarrow> jval \<Rightarrow> jval \<Rightarrow> exn + inventory option" where
  "filter_first st p s =
     (case get_prep_value p of
        Inl e \<Rightarrow> Inl e
      | Inr p' \<Rightarrow>
          (case get_prep_value s of
             Inl e \<Rightarrow> Inl e
           | Inr s' \<Rightarrow>
               Inr (find (\<lambda>r. Some (product_id r) = p' \<and> Some (shop_id r) = s') st)))"

text \<open>
  \<^verbatim>\<open>inv.save()\<close> writes every field of the object to the row with its primary key,
  and inserts the object when there is no such row.
\<close>

definition save :: "inventory \<Rightarrow> store \<Rightarrow> store" where
  "save obj st =
     (if find (\<lambda>r. pk r = pk obj) st = None then st @ [obj]
      else map (\<lambda>r. if pk r = pk obj then obj else r) st)"

text \<open>
  \<^verbatim>\<open>InventorySerializer(inv).data\<close>: the fields of the object and the derived
  \<^verbatim>\<open>available\<close> (\<^verbatim>\<open>get_available\<close>).
\<close>

definition get_available :: "inventory \<Rightarrow> int" where
  "get_available obj = available obj"

datatype body =
    Data inventory int
  | Detail string
  | Availability int int int

datatype outcome =
    Response nat body
  | Raised exn

definition serialize :: "inventory \<Rightarrow> body" where
  "serialize obj = Data obj (get_available obj)"

section \<open>The handlers: \<^verbatim>\<open>Inventory/views.py\<close>\<close>

text \<open>
  A handler takes the table and the request and returns the table after it together with
  its outcome; a handler that raises leaves the table as it was. The framework's
  permission gate in front of a handler is not part of its body.
\<close>

subsection \<open>\<^verbatim>\<open>update_stock\<close>\<close>

text \<open>\<^verbatim>\<open>get_object_or_404(Inventory, pk=pk)\<close>, with \<open>pk\<close> the text taken from the URL.\<close>

definition get_object_or_404 :: "store \<Rightarrow> string \<Rightarrow> exn + inventory" where
  "get_object_or_404 st k =
     (case py_int (JStr k) of
        Inl e \<Rightarrow> Inl e
      | Inr n \<Rightarrow>
          (case find (\<lambda>r. pk r = n) st of
             None \<Rightarrow> Inl Http404
           | Some invr \<Rightarrow> Inr invr))"

definition update_stock :: "store \<Rightarrow> string \<Rightarrow> data \<Rightarrow> store \<times> outcome" where
  "update_stock st k d =
     (case get_object_or_404 st k of
        Inl e \<Rightarrow> (st, Raised e)
      | Inr invr \<Rightarrow>
          (case (case d ''stock'' of
                   None \<Rightarrow> Inr invr
                 | Some v \<Rightarrow>
                     (case py_int v of
                        Inl e \<Rightarrow> Inl (ValidationError ''stock'' ''invalid integer'')
                      | Inr n \<Rightarrow> Inr (invr\<lparr>stock := n\<rparr>))) of
             Inl e \<Rightarrow> (st, Raised e)
           | Inr invr1 \<Rightarrow>
               (case (case d ''threshold'' of
                        None \<Rightarrow> Inr invr1
                      | Some v \<Rightarrow>
                          (case py_int v of
                             Inl e \<Rightarrow> Inl (ValidationError ''threshold'' ''invalid integer'')
                           | Inr n \<Rightarrow> Inr (invr1\<lparr>threshold := n\<rparr>))) of
                  Inl e \<Rightarrow> (st, Raised e)
                | Inr invr2 \<Rightarrow>
                    (let invr3 =
                           (case d ''meta'' of
                              None \<Rightarrow> invr2
                            | Some v \<Rightarrow> invr2\<lparr>meta := py_or (dict_get d ''meta'') (JDict [])\<rparr>)
                     in (save invr3 st, Response 200 (serialize invr3))))))"

subsection \<open>\<^verbatim>\<open>reserve\<close>, \<^verbatim>\<open>release\<close>, \<^verbatim>\<open>commit\<close>\<close>

text \<open>
  The three handlers open with the same statements: read the two identifiers and the
  quantity, convert the quantity (\<open>parse_quantity\<close>; an exception of \<^verbatim>\<open>int()\<close> is not
  caught here), check the arguments, read the row, raise when there is none.
  \<open>load_record\<close> is that opening; it does not write.
\<close>

definition parse_quantity :: "data \<Rightarrow> exn + int" where
  "parse_quantity d = py_int (py_or (dict_get_default d ''quantity'' (JInt 0)) (JInt 0))"

definition load_record :: "store \<Rightarrow> data \<Rightarrow> exn + inventory \<times> int" where
  "load_record st d =
     (let product_id = dict_get d ''product_id'';
          shop_id = dict_get d ''shop_id''
      in case parse_quantity d of
           Inl e \<Rightarrow> Inl e
         | Inr qty \<Rightarrow>
             (if \<not> truthy product_id \<or> \<not> truthy shop_id \<or> qty \<le> 0 then
                Inl (ValidationError ''detail''
                       ''product_id, shop_id and positive quantity required'')
              else
                (case filter_first st product_id shop_id of
                   Inl e \<Rightarrow> Inl e
                 | Inr None \<Rightarrow> Inl (NotFound ''Inventory record not found'')
                 | Inr (Some invr) \<Rightarrow> Inr (invr, qty))))"

text \<open>What \<^verbatim>\<open>reserve\<close> does with the row it has read.\<close>

definition reserve_apply :: "store \<Rightarrow> inventory \<Rightarrow> int \<Rightarrow> store \<times> outcome" where
  "reserve_apply st invr qty =
     (if available invr < qty then
        (st, Response 400 (Detail ''Not enough available stock''))
      else
        (let invr' = invr\<lparr>reserved := reserved invr + qty\<rparr>
         in (save invr' st, Response 200 (serialize invr'))))"

definition reserve :: "store \<Rightarrow> data \<Rightarrow> store \<times> outcome" where
  "reserve st d =
     (case load_record st d of
        Inl e \<Rightarrow> (st, Raised e)
      | Inr (invr, qty) \<Rightarrow> reserve_apply st invr qty)"

definition release_apply :: "store \<Rightarrow> inventory \<Rightarrow> int \<Rightarrow> store \<times> outcome" where
  "release_apply st invr qty =
     (let invr' = invr\<lparr>reserved := max (reserved invr - qty) 0\<rparr>
      in (save invr' st, Response 200 (serialize invr')))"

definition release :: "store \<Rightarrow> data \<Rightarrow> store \<times> outcome" where
  "release st d =
     (case load_record st d of
        Inl e \<Rightarrow> (st, Raised e)
      | Inr (invr, qty) \<Rightarrow> release_apply st invr qty)"

definition commit_apply :: "store \<Rightarrow> inventory \<Rightarrow> int \<Rightarrow> store \<times> outcome" where
  "commit_apply st invr qty =
     (if reserved invr < qty then
        (st, Response 400 (Detail ''Not enough reserved stock''))
      else
        (let invr' = invr\<lparr>reserved := reserved invr - qty\<rparr>;
             invr'' = invr'\<lparr>stock := max (stock invr' - qty) 0\<rparr>
         in (save invr'' st, Response 200 (serialize invr''))))"

definition commit :: "store \<Rightarrow> data \<Rightarrow> store \<times> outcome" where
  "commit st d =
     (case load_record st d of
        Inl e \<Rightarrow> (st, Raised e)
      | Inr (invr, qty) \<Rightarrow> commit_apply st invr qty)"

subsection \<open>\<^verbatim>\<open>availability\<close>\<close>



section \<open>Calls, sequences of calls, interleaved calls\<close>

text \<open>
  The body of a call \<^verbatim>\<open>{"shop_id": s, "product_id": p, "quantity": q}\<close> with integer
  arguments, as the docstrings of the three handlers give it.
\<close>

definition call_data :: "int \<Rightarrow> int \<Rightarrow> int \<Rightarrow> data" where
  "call_data p s q =
     [''product_id'' \<mapsto> JInt p, ''shop_id'' \<mapsto> JInt s, ''quantity'' \<mapsto> JInt q]"

text \<open>Invariant (1) of the data model, on one row.\<close>

definition invariant1 :: "inventory \<Rightarrow> bool" where
  "invariant1 r = (0 \<le> reserved r \<and> reserved r \<le> stock r)"

text \<open>A sequence of calls, each run to its end before the next begins.\<close>

datatype op = Reserve | Release | Commit

fun apply_call :: "store \<Rightarrow> op \<times> data \<Rightarrow> store \<times> outcome" where
  "apply_call st (Reserve, d) = reserve st d"
| "apply_call st (Release, d) = release st d"
| "apply_call st (Commit, d) = commit st d"

fun run_calls :: "store \<Rightarrow> (op \<times> data) list \<Rightarrow> store" where
  "run_calls st [] = st"
| "run_calls st (c # cs) = run_calls (fst (apply_call st c)) cs"

fun reserve_seq :: "nat \<Rightarrow> store \<Rightarrow> data \<Rightarrow> store \<times> outcome list" where
  "reserve_seq 0 st d = (st, [])"
| "reserve_seq (Suc n) st d =
     (case reserve st d of
        (st', out) \<Rightarrow> (case reserve_seq n st' d of (st'', outs) \<Rightarrow> (st'', out # outs)))"

text \<open>
  Calls of \<^verbatim>\<open>reserve\<close> in flight at once. The handler holds no lock and opens no
  transaction: between its read of the row (\<open>load_record\<close>) and its write
  (\<open>reserve_apply\<close>, on the object it has read) other calls may read and write. A call
  is therefore in one of three states, and a schedule names, step by step, the call
  that moves next.
\<close>

datatype task =
    Pending data
  | Loaded inventory int
  | Done outcome

definition step :: "nat \<Rightarrow> store \<times> task list \<Rightarrow> store \<times> task list" where
  "step i cfg =
     (case cfg of
        (st, ts) \<Rightarrow>
          (if i < length ts then
             (case ts ! i of
                Pending d \<Rightarrow>
                  (case load_record st d of
                     Inl e \<Rightarrow> (st, ts[i := Done (Raised e)])
                   | Inr (invr, qty) \<Rightarrow> (st, ts[i := Loaded invr qty]))
              | Loaded invr qty \<Rightarrow>
                  (case reserve_apply st invr qty of
                     (st', out) \<Rightarrow> (st', ts[i := Done out]))
              | Done out \<Rightarrow> (st, ts))
           else (st, ts)))"

definition run :: "nat list \<Rightarrow> store \<times> task list \<Rightarrow> store \<times> task list" where
  "run sched cfg = fold step sched cfg"

text \<open>The schedule in which call 0 runs to its end, then call 1, and so on.\<close>

definition serial :: "nat \<Rightarrow> nat list" where
  "serial n = concat (map (\<lambda>i. [i, i]) [0..<n])"

fun succeeded :: "outcome \<Rightarrow> bool" where
  "succeeded (Response code b) = (code = 200)"
| "succeeded (Raised e) = False"

fun outcomes :: "task list \<Rightarrow> outcome list" where
  "outcomes [] = []"
| "outcomes (Done out # ts) = out # outcomes ts"
| "outcomes (t # ts) = outcomes ts"

text \<open>A row for examples.\<close>

definition row :: "int \<Rightarrow> int \<Rightarrow> int \<Rightarrow> int \<Rightarrow> inventory" where
  "row p s stk res =
     \<lparr>pk = 1, product_id = p, shop_id = s, stock = stk, reserved = res,
      threshold = 0, meta = JDict []\<rparr>"

text \<open>
  What holds of a configuration throughout a race of \<^verbatim>\<open>reserve\<close> calls with arguments
  \<open>p\<close>, \<open>s\<close>, \<open>q\<close> on the row \<open>r\<close>: the table holds \<open>r\<close> with some reserved count
  between 0 and its stock, and every object a call has read is \<open>r\<close> with some
  non-negative reserved count.
\<close>

definition race_ok :: "int \<Rightarrow> int \<Rightarrow> int \<Rightarrow> inventory \<Rightarrow> store \<times> task list \<Rightarrow> bool" where
  "race_ok p s q r cfg =
     ((\<exists>x. filter_first (fst cfg) (JInt p) (JInt s) = Inr (Some (r\<lparr>reserved := x\<rparr>))
           \<and> 0 \<le> x \<and> x \<le> stock r)
      \<and> (\<forall>t \<in> set (snd cfg).
            (\<forall>d. t = Pending d \<longrightarrow> d = call_data p s q)
          \<and> (\<forall>i n. t = Loaded i n \<longrightarrow> n = q \<and> (\<exists>y. i = r\<lparr>reserved := y\<rparr> \<and> 0 \<le> y))))"

section \<open>Lemmas on the table\<close>

lemma find_in_set: "find P xs = Some x \<Longrightarrow> x \<in> set xs \<and> P x"
  by (induction xs) (auto split: if_splits)

lemma save_is_map:
  assumes "r \<in> set st" "pk r = pk obj"
  shows "save obj st = map (\<lambda>x. if pk x = pk obj then obj else x) st"
proof -
  have "find (\<lambda>x. pk x = pk obj) st \<noteq> None"
    using assms by (auto simp: find_None_iff)
  then show ?thesis by (simp add: save_def)
qed

lemma find_map_replace:
  assumes "find P st = Some r" "P obj" "pk obj = pk r"
  shows "find P (map (\<lambda>x. if pk x = pk obj then obj else x) st) = Some obj"
  using assms by (induction st) (auto split: if_splits)

text \<open>After a row that a lookup finds is saved, the same lookup finds the saved object.\<close>

lemma find_save:
  assumes "find P st = Some r" "P obj" "pk obj = pk r"
  shows "find P (save obj st) = Some obj"
proof -
  have "r \<in> set st" using assms(1) by (simp add: find_in_set)
  then have "save obj st = map (\<lambda>x. if pk x = pk obj then obj else x) st"
    using assms(3) by (intro save_is_map) auto
  then show ?thesis using find_map_replace [OF assms] by simp
qed

lemma filter_first_int:
  "filter_first st (JInt p) (JInt s) = Inr (find (\<lambda>r. product_id r = p \<and> shop_id r = s) st)"
  by (simp add: filter_first_def)

lemma filter_first_save:
  assumes "filter_first st (JInt p) (JInt s) = Inr (Some r)"
    and "product_id obj = product_id r" "shop_id obj = shop_id r" "pk obj = pk r"
  shows "filter_first (save obj st) (JInt p) (JInt s) = Inr (Some obj)"
proof -
  let ?P = "\<lambda>r. product_id r = p \<and> shop_id r = s"
  have f: "find ?P st = Some r" using assms(1) by (simp add: filter_first_int)
  then have "?P r" using find_in_set by fast
  then have "?P obj" using assms(2,3) by simp
  then have "find ?P (save obj st) = Some obj" using f assms(4) by (intro find_save) auto
  then show ?thesis by (simp add: filter_first_int)
qed



section \<open>Lemmas on the opening of the three handlers\<close>

lemma parse_quantity_call: "parse_quantity (call_data p s q) = Inr q"
  by (simp add: parse_quantity_def call_data_def dict_get_default_def py_or_def)

lemma load_record_call:
  "load_record st (call_data p s q) =
     (if p = 0 \<or> s = 0 \<or> q \<le> 0 then
        Inl (ValidationError ''detail'' ''product_id, shop_id and positive quantity required'')
      else (case filter_first st (JInt p) (JInt s) of
              Inl e \<Rightarrow> Inl e
            | Inr None \<Rightarrow> Inl (NotFound ''Inventory record not found'')
            | Inr (Some r) \<Rightarrow> Inr (r, q)))"
  unfolding load_record_def parse_quantity_call Let_def
  by (auto simp: call_data_def dict_get_def)

lemma load_record_found:
  assumes "p \<noteq> 0" "s \<noteq> 0" "0 < q" "filter_first st (JInt p) (JInt s) = Inr (Some r)"
  shows "load_record st (call_data p s q) = Inr (r, q)"
  using assms by (simp add: load_record_call)

lemma load_record_Inr:
  assumes "load_record st d = Inr (r, q)"
  shows "0 < q"
    and "filter_first st (dict_get d ''product_id'') (dict_get d ''shop_id'') = Inr (Some r)"
  using assms
  by (auto simp: load_record_def Let_def split: sum.splits if_splits option.splits)

text \<open>A call whose product or shop identifier is the integer 0 is turned away.\<close>

lemma rejected_zero_id:
  assumes "p = 0 \<or> s = 0"
  shows "reserve st (call_data p s q) =
           (st, Raised (ValidationError ''detail''
                  ''product_id, shop_id and positive quantity required''))"
    and "release st (call_data p s q) =
           (st, Raised (ValidationError ''detail''
                  ''product_id, shop_id and positive quantity required''))"
    and "commit st (call_data p s q) =
           (st, Raised (ValidationError ''detail''
                  ''product_id, shop_id and positive quantity required''))"
  using assms by (auto simp: reserve_def release_def commit_def load_record_call)

lemma reserve_found:
  assumes "p \<noteq> 0" "s \<noteq> 0" "0 < q" "filter_first st (JInt p) (JInt s) = Inr (Some r)"
    and "q \<le> available r"
  shows "reserve st (call_data p s q) =
           (save (r\<lparr>reserved := reserved r + q\<rparr>) st,
            Response 200 (serialize (r\<lparr>reserved := reserved r + q\<rparr>)))"
    and "filter_first (fst (reserve st (call_data p s q))) (JInt p) (JInt s) =
           Inr (Some (r\<lparr>reserved := reserved r + q\<rparr>))"
proof -
  let ?r' = "r\<lparr>reserved := reserved r + q\<rparr>"
  have l: "load_record st (call_data p s q) = Inr (r, q)"
    using assms(1-4) by (rule load_record_found)
  have s: "filter_first (save ?r' st) (JInt p) (JInt s) = Inr (Some ?r')"
    using assms(4) by (rule filter_first_save) simp_all
  show "reserve st (call_data p s q) = (save ?r' st, Response 200 (serialize ?r'))"
    using assms(5) by (simp add: reserve_def l reserve_apply_def Let_def)
  then show "filter_first (fst (reserve st (call_data p s q))) (JInt p) (JInt s) = Inr (Some ?r')"
    using s by simp
qed

lemma release_found:
  assumes "p \<noteq> 0" "s \<noteq> 0" "0 < q" "filter_first st (JInt p) (JInt s) = Inr (Some r)"
  shows "release st (call_data p s q) =
           (save (r\<lparr>reserved := max (reserved r - q) 0\<rparr>) st,
            Response 200 (serialize (r\<lparr>reserved := max (reserved r - q) 0\<rparr>)))"
    and "filter_first (fst (release st (call_data p s q))) (JInt p) (JInt s) =
           Inr (Some (r\<lparr>reserved := max (reserved r - q) 0\<rparr>))"
proof -
  let ?r' = "r\<lparr>reserved := max (reserved r - q) 0\<rparr>"
  have l: "load_record st (call_data p s q) = Inr (r, q)"
    using assms by (rule load_record_found)
  have s: "filter_first (save ?r' st) (JInt p) (JInt s) = Inr (Some ?r')"
    using assms(4) by (rule filter_first_save) simp_all
  show "release st (call_data p s q) = (save ?r' st, Response 200 (serialize ?r'))"
    by (simp add: release_def l release_apply_def Let_def)
  then show "filter_first (fst (release st (call_data p s q))) (JInt p) (JInt s) = Inr (Some ?r')"
    using s by simp
qed

text \<open>
  The conversion that \<^verbatim>\<open>reserve\<close>, \<^verbatim>\<open>release\<close> and \<^verbatim>\<open>commit\<close> leave unguarded is
  guarded in \<^verbatim>\<open>update_stock\<close>: there a text that is no number is a validation error.
\<close>

lemma update_stock_catches_conversion:
  "update_stock [row 10 5 10 4] ''1'' [''stock'' \<mapsto> JStr ''abc'']
     = ([row 10 5 10 4], Raised (ValidationError ''stock'' ''invalid integer''))"
  by (simp add: update_stock_def get_object_or_404_def row_def int_of_str_def strip_def
        is_space_def digits_def digit_of_def)

section \<open>Availability\<close>




section \<open>Editing the stock\<close>




section \<open>Validation of the arguments\<close>




text \<open>
  Claim C10. A call whose \<^verbatim>\<open>product_id\<close> is the integer 0 and whose quantity is the text
  \<^verbatim>\<open>abc\<close>: the conversion of the quantity comes before the check of the identifiers and
  raises ValueError, which no handler catches. There is no lookup and no write, but the
  outcome is not the validation error.
\<close>

theorem zero_id_non_numeric_quantity:
  "reserve [row 0 5 10 4]
     [''product_id'' \<mapsto> JInt 0, ''shop_id'' \<mapsto> JInt 5, ''quantity'' \<mapsto> JStr ''abc'']
     = ([row 0 5 10 4], Raised ValueError)
   \<and> release [row 0 5 10 4]
     [''product_id'' \<mapsto> JInt 0, ''shop_id'' \<mapsto> JInt 5, ''quantity'' \<mapsto> JStr ''abc'']
     = ([row 0 5 10 4], Raised ValueError)
   \<and> commit [row 0 5 10 4]
     [''product_id'' \<mapsto> JInt 0, ''shop_id'' \<mapsto> JInt 5, ''quantity'' \<mapsto> JStr ''abc'']
     = ([row 0 5 10 4], Raised ValueError)"
  by (simp add: reserve_def release_def commit_def load_record_def parse_quantity_def
        dict_get_default_def py_or_def int_of_str_def strip_def is_space_def digits_def
        digit_of_def)

section \<open>The three transitions on an existing record\<close>

text \<open>
  Claim C6. For every \<^verbatim>\<open>reserve\<close> call with valid arguments (both identifiers given and
  not zero, a positive quantity): if no record exists for the pair the call raises
  NotFound; if a record exists and its available count is below the
  quantity, the call answers with status 400 and the detail "Not enough available
  stock"; the two outcomes are different, and in both the table is unchanged.
\<close>

theorem reserve_not_found_or_insufficient:
  assumes "p \<noteq> 0" "s \<noteq> 0" "0 < q"
  shows "(filter_first st (JInt p) (JInt s) = Inr None \<longrightarrow>
            reserve st (call_data p s q) = (st, Raised (NotFound ''Inventory record not found'')))
       \<and> (filter_first st (JInt p) (JInt s) = Inr (Some r) \<and> available r < q \<longrightarrow>
            reserve st (call_data p s q)
              = (st, Response 400 (Detail ''Not enough available stock'')))
       \<and> Response 400 (Detail ''Not enough available stock'')
            \<noteq> Raised (NotFound ''Inventory record not found'')"
  using assms by (simp add: reserve_def load_record_call reserve_apply_def)

theorem reserve_not_found_or_insufficient_witness:
  "reserve [] (call_data 10 5 5) = ([], Raised (NotFound ''Inventory record not found''))
   \<and> reserve [row 10 5 4 2] (call_data 10 5 5)
       = ([row 10 5 4 2], Response 400 (Detail ''Not enough available stock''))"
  using reserve_not_found_or_insufficient [where p = 10 and s = 5 and q = 5 and st = "[]"]
    reserve_not_found_or_insufficient [where p = 10 and s = 5 and q = 5
      and st = "[row 10 5 4 2]" and r = "row 10 5 4 2"]
  by (simp add: filter_first_def row_def available_def)

text \<open>
  Claim C7, as the code has it. For every existing record whose \<^verbatim>\<open>product_id\<close> and
  \<^verbatim>\<open>shop_id\<close> are both not zero, and every \<open>qty > 0\<close>: if \<open>reserved \<ge> qty\<close>,
  \<^verbatim>\<open>commit\<close> sets reserved to \<open>reserved - qty\<close> and stock to \<open>max (stock - qty) 0\<close>
  (from stock 10 and reserved 4, a commit of 4 gives stock 6 and reserved 0); if
  \<open>reserved < qty\<close>, it answers with status 400 "Not enough reserved stock" and leaves
  the table unchanged.
\<close>

theorem commit_effect:
  assumes "p \<noteq> 0" "s \<noteq> 0" "0 < q" "filter_first st (JInt p) (JInt s) = Inr (Some r)"
  shows "(q \<le> reserved r \<longrightarrow>
            commit st (call_data p s q) =
              (save (r\<lparr>reserved := reserved r - q, stock := max (stock r - q) 0\<rparr>) st,
               Response 200
                 (serialize (r\<lparr>reserved := reserved r - q, stock := max (stock r - q) 0\<rparr>)))
          \<and> filter_first (fst (commit st (call_data p s q))) (JInt p) (JInt s) =
              Inr (Some (r\<lparr>reserved := reserved r - q, stock := max (stock r - q) 0\<rparr>)))
       \<and> (reserved r < q \<longrightarrow>
            commit st (call_data p s q)
              = (st, Response 400 (Detail ''Not enough reserved stock'')))"
proof -
  let ?r' = "r\<lparr>reserved := reserved r - q, stock := max (stock r - q) 0\<rparr>"
  have l: "load_record st (call_data p s q) = Inr (r, q)"
    using assms by (rule load_record_found)
  have c: "commit st (call_data p s q) = commit_apply st r q"
    by (simp add: commit_def l)
  have s: "filter_first (save ?r' st) (JInt p) (JInt s) = Inr (Some ?r')"
    using assms(4) by (rule filter_first_save) simp_all
  show ?thesis using s by (simp add: c commit_apply_def Let_def)
qed

text \<open>
  A record with \<^verbatim>\<open>product_id\<close> 0, stock 10 and reserved 4: the commit of 4 is turned
  away by the check of the arguments and changes nothing.
\<close>

theorem commit_zero_id_counterexample:
  "filter_first [row 0 5 10 4] (JInt 0) (JInt 5) = Inr (Some (row 0 5 10 4))
   \<and> commit [row 0 5 10 4] (call_data 0 5 4)
       = ([row 0 5 10 4],
          Raised (ValidationError ''detail''
            ''product_id, shop_id and positive quantity required''))"
  by (simp add: commit_def load_record_call filter_first_def row_def)

theorem commit_effect_witness:
  "commit [row 10 5 10 4] (call_data 10 5 4)
     = ([row 10 5 6 0], Response 200 (Data (row 10 5 6 0) 6))
   \<and> commit [row 10 5 10 4] (call_data 10 5 5)
     = ([row 10 5 10 4], Response 400 (Detail ''Not enough reserved stock''))"
  using commit_effect [where p = 10 and s = 5 and q = 4 and st = "[row 10 5 10 4]"
      and r = "row 10 5 10 4"]
    commit_effect [where p = 10 and s = 5 and q = 5 and st = "[row 10 5 10 4]"
      and r = "row 10 5 10 4"]
  by (simp add: filter_first_def row_def save_def serialize_def get_available_def available_def)

text \<open>
  Claim C8, as the code has it. For every existing record whose \<^verbatim>\<open>product_id\<close> and
  \<^verbatim>\<open>shop_id\<close> are both not zero, and every \<open>qty > 0\<close>, \<^verbatim>\<open>release\<close> succeeds and sets
  reserved to \<open>max (reserved - qty) 0\<close>; releasing 100 from a record with reserved 3
  gives reserved 0, and reserved is never negative after a release.
\<close>

theorem release_effect:
  assumes "p \<noteq> 0" "s \<noteq> 0" "0 < q" "filter_first st (JInt p) (JInt s) = Inr (Some r)"
  shows "release st (call_data p s q) =
           (save (r\<lparr>reserved := max (reserved r - q) 0\<rparr>) st,
            Response 200 (serialize (r\<lparr>reserved := max (reserved r - q) 0\<rparr>)))
       \<and> filter_first (fst (release st (call_data p s q))) (JInt p) (JInt s) =
           Inr (Some (r\<lparr>reserved := max (reserved r - q) 0\<rparr>))
       \<and> 0 \<le> reserved (r\<lparr>reserved := max (reserved r - q) 0\<rparr>)"
  using release_found [OF assms] by simp

text \<open>
  A record with \<^verbatim>\<open>shop_id\<close> 0 and reserved 3: the release of 100 is turned away by the
  check of the arguments and reserved stays 3.
\<close>

theorem release_zero_id_counterexample:
  "filter_first [row 10 0 10 3] (JInt 10) (JInt 0) = Inr (Some (row 10 0 10 3))
   \<and> release [row 10 0 10 3] (call_data 10 0 100)
       = ([row 10 0 10 3],
          Raised (ValidationError ''detail''
            ''product_id, shop_id and positive quantity required''))"
  by (simp add: release_def load_record_call filter_first_def row_def)

theorem release_effect_witness:
  "release [row 10 5 10 3] (call_data 10 5 100)
     = ([row 10 5 10 0], Response 200 (Data (row 10 5 10 0) 10))"
  using release_effect [where p = 10 and s = 5 and q = 100 and st = "[row 10 5 10 3]"
      and r = "row 10 5 10 3"]
  by (simp add: filter_first_def row_def save_def serialize_def get_available_def available_def)

text \<open>
  Claim C9. For every existing record with \<open>0 \<le> reserved \<le> stock\<close> and every
  \<open>qty > 0\<close> with \<open>available \<ge> qty\<close>, \<^verbatim>\<open>reserve\<close> followed by \<^verbatim>\<open>release\<close> with the same
  arguments leaves the record as it was before the reserve, reserved count included,
  and the stock is the same after the reserve and after the release. When both
  identifiers are not zero the reserve in between succeeds and has raised reserved by
  \<open>qty\<close>.
\<close>

theorem reserve_release_round_trip:
  assumes "filter_first st (JInt p) (JInt s) = Inr (Some r)"
    and "0 \<le> reserved r" "reserved r \<le> stock r" "0 < q" "q \<le> available r"
  shows "\<exists>r1. filter_first (fst (reserve st (call_data p s q))) (JInt p) (JInt s) = Inr (Some r1)
            \<and> stock r1 = stock r
            \<and> (p \<noteq> 0 \<and> s \<noteq> 0 \<longrightarrow>
                  reserved r1 = reserved r + q \<and> succeeded (snd (reserve st (call_data p s q))))
            \<and> filter_first
                 (fst (release (fst (reserve st (call_data p s q))) (call_data p s q)))
                 (JInt p) (JInt s) = Inr (Some r)"
proof (cases "p = 0 \<or> s = 0")
  case True
  then show ?thesis using assms(1) by (auto simp: rejected_zero_id)
next
  case False
  let ?d = "call_data p s q"
  let ?r1 = "r\<lparr>reserved := reserved r + q\<rparr>"
  from False have nz: "p \<noteq> 0" "s \<noteq> 0" by simp_all
  have a: "reserve st ?d = (save ?r1 st, Response 200 (serialize ?r1))"
    and b: "filter_first (fst (reserve st ?d)) (JInt p) (JInt s) = Inr (Some ?r1)"
    using reserve_found [OF nz assms(4) assms(1) assms(5)] by simp_all
  have "filter_first (fst (release (fst (reserve st ?d)) ?d)) (JInt p) (JInt s)
          = Inr (Some (?r1\<lparr>reserved := max (reserved ?r1 - q) 0\<rparr>))"
    by (rule release_found(2) [OF nz assms(4) b])
  moreover have "?r1\<lparr>reserved := max (reserved ?r1 - q) 0\<rparr> = r"
    using assms(2) by simp
  ultimately show ?thesis using a b by (simp add: serialize_def)
qed

theorem reserve_release_round_trip_witness:
  "filter_first
     (fst (release (fst (reserve [row 10 5 10 2] (call_data 10 5 5))) (call_data 10 5 5)))
     (JInt 10) (JInt 5) = Inr (Some (row 10 5 10 2))
   \<and> succeeded (snd (reserve [row 10 5 10 2] (call_data 10 5 5)))"
  using reserve_release_round_trip [where p = 10 and s = 5 and q = 5
      and st = "[row 10 5 10 2]" and r = "row 10 5 10 2"]
  by (auto simp: filter_first_def row_def available_def)

section \<open>Invariant (1) under sequences of calls\<close>

lemma reserve_apply_invariant:
  assumes "filter_first st (JInt p) (JInt s) = Inr (Some r)" "invariant1 r" "0 < q"
  shows "\<exists>r'. filter_first (fst (reserve_apply st r q)) (JInt p) (JInt s) = Inr (Some r')
            \<and> invariant1 r'"
proof (cases "available r < q")
  case True
  then show ?thesis using assms by (auto simp: reserve_apply_def)
next
  case False
  let ?r' = "r\<lparr>reserved := reserved r + q\<rparr>"
  have "filter_first (save ?r' st) (JInt p) (JInt s) = Inr (Some ?r')"
    using assms(1) by (rule filter_first_save) simp_all
  moreover have "invariant1 ?r'"
    using False assms(2,3) by (auto simp: invariant1_def available_def)
  ultimately show ?thesis using False by (auto simp: reserve_apply_def Let_def)
qed

lemma release_apply_invariant:
  assumes "filter_first st (JInt p) (JInt s) = Inr (Some r)" "invariant1 r" "0 < q"
  shows "\<exists>r'. filter_first (fst (release_apply st r q)) (JInt p) (JInt s) = Inr (Some r')
            \<and> invariant1 r'"
proof -
  let ?r' = "r\<lparr>reserved := max (reserved r - q) 0\<rparr>"
  have "filter_first (save ?r' st) (JInt p) (JInt s) = Inr (Some ?r')"
    using assms(1) by (rule filter_first_save) simp_all
  moreover have "invariant1 ?r'"
    using assms(2,3) by (auto simp: invariant1_def)
  ultimately show ?thesis by (auto simp: release_apply_def Let_def)
qed

lemma commit_apply_invariant:
  assumes "filter_first st (JInt p) (JInt s) = Inr (Some r)" "invariant1 r" "0 < q"
  shows "\<exists>r'. filter_first (fst (commit_apply st r q)) (JInt p) (JInt s) = Inr (Some r')
            \<and> invariant1 r'"
proof (cases "reserved r < q")
  case True
  then show ?thesis using assms by (auto simp: commit_apply_def)
next
  case False
  let ?r' = "r\<lparr>reserved := reserved r - q, stock := max (stock r - q) 0\<rparr>"
  have "filter_first (save ?r' st) (JInt p) (JInt s) = Inr (Some ?r')"
    using assms(1) by (rule filter_first_save) simp_all
  moreover have "invariant1 ?r'"
    using False assms(2,3) by (auto simp: invariant1_def)
  ultimately show ?thesis using False by (auto simp: commit_apply_def Let_def)
qed

lemma apply_call_invariant:
  assumes f: "filter_first st (JInt p) (JInt s) = Inr (Some r)" and i: "invariant1 r"
    and d: "d ''product_id'' = Some (JInt p)" "d ''shop_id'' = Some (JInt s)"
  shows "\<exists>r'. filter_first (fst (apply_call st (c, d))) (JInt p) (JInt s) = Inr (Some r')
            \<and> invariant1 r'"
proof (cases "load_record st d")
  case (Inl e)
  then have "fst (apply_call st (c, d)) = st"
    by (cases c) (simp_all add: reserve_def release_def commit_def)
  then show ?thesis using f i by auto
next
  case (Inr a)
  obtain r0 q where a: "a = (r0, q)" by (cases a)
  have q: "0 < q" using load_record_Inr(1) Inr a by simp
  have "filter_first st (dict_get d ''product_id'') (dict_get d ''shop_id'') = Inr (Some r0)"
    using load_record_Inr(2) Inr a by simp
  then have "r0 = r" using f d by (simp add: dict_get_def)
  then have l: "load_record st d = Inr (r, q)" using Inr a by simp
  show ?thesis
  proof (cases c)
    case Reserve
    then show ?thesis using reserve_apply_invariant [OF f i q] by (simp add: reserve_def l)
  next
    case Release
    then show ?thesis using release_apply_invariant [OF f i q] by (simp add: release_def l)
  next
    case Commit
    then show ?thesis using commit_apply_invariant [OF f i q] by (simp add: commit_def l)
  qed
qed

lemma run_calls_invariant:
  assumes "filter_first st (JInt p) (JInt s) = Inr (Some r)" "invariant1 r"
    and "\<forall>c \<in> set cs. snd c ''product_id'' = Some (JInt p) \<and> snd c ''shop_id'' = Some (JInt s)"
  shows "\<exists>r'. filter_first (run_calls st cs) (JInt p) (JInt s) = Inr (Some r') \<and> invariant1 r'"
  using assms
proof (induction cs arbitrary: st r)
  case Nil
  then show ?case by auto
next
  case (Cons c cs)
  obtain k d where c: "c = (k, d)" by (cases c)
  have "d ''product_id'' = Some (JInt p)" "d ''shop_id'' = Some (JInt s)"
    using Cons.prems(3) c by simp_all
  then obtain r1 where r1: "filter_first (fst (apply_call st (k, d))) (JInt p) (JInt s) = Inr (Some r1)"
    "invariant1 r1"
    using apply_call_invariant [OF Cons.prems(1,2)] by blast
  have "\<forall>c \<in> set cs. snd c ''product_id'' = Some (JInt p) \<and> snd c ''shop_id'' = Some (JInt s)"
    using Cons.prems(3) by simp
  then show ?case using Cons.IH [OF r1] c by simp
qed

text \<open>
  Claim C2. For every record whose state satisfies \<open>0 \<le> reserved \<le> stock\<close>, and
  for every finite sequence of \<^verbatim>\<open>reserve\<close>, \<^verbatim>\<open>release\<close> and \<^verbatim>\<open>commit\<close> calls
  addressed to it, with any quantity values at all (so that each call succeeds, is
  rejected or raises), the record after each call, that is after the first \<open>n\<close> calls
  for every \<open>n\<close>, still satisfies \<open>0 \<le> reserved \<le> stock\<close> and \<open>stock \<ge> 0\<close>.
\<close>

theorem invariant_preserved:
  assumes "filter_first st (JInt p) (JInt s) = Inr (Some r)"
    and "0 \<le> reserved r" "reserved r \<le> stock r"
    and "\<forall>c \<in> set cs. snd c ''product_id'' = Some (JInt p) \<and> snd c ''shop_id'' = Some (JInt s)"
  shows "\<exists>r'. filter_first (run_calls st (take n cs)) (JInt p) (JInt s) = Inr (Some r')
            \<and> 0 \<le> reserved r' \<and> reserved r' \<le> stock r' \<and> 0 \<le> stock r'"
proof -
  have i: "invariant1 r" using assms(2,3) by (simp add: invariant1_def)
  have "\<forall>c \<in> set (take n cs). snd c ''product_id'' = Some (JInt p) \<and> snd c ''shop_id'' = Some (JInt s)"
    using assms(4) by (meson in_set_takeD)
  then obtain r' where "filter_first (run_calls st (take n cs)) (JInt p) (JInt s) = Inr (Some r')"
    "invariant1 r'"
    using run_calls_invariant [OF assms(1) i] by blast
  then show ?thesis by (auto simp: invariant1_def)
qed

theorem invariant_preserved_witness:
  "\<exists>r'. filter_first
          (run_calls [row 10 5 10 4]
             (take 3 [(Reserve, call_data 10 5 3), (Commit, call_data 10 5 7),
                      (Release, call_data 10 5 100)]))
          (JInt 10) (JInt 5) = Inr (Some r')
        \<and> 0 \<le> reserved r' \<and> reserved r' \<le> stock r' \<and> 0 \<le> stock r'"
  using invariant_preserved [where p = 10 and s = 5 and st = "[row 10 5 10 4]"
      and r = "row 10 5 10 4" and n = 3
      and cs = "[(Reserve, call_data 10 5 3), (Commit, call_data 10 5 7),
                 (Release, call_data 10 5 100)]"]
  by (simp add: filter_first_def row_def call_data_def)

section \<open>Racing reserve calls\<close>

lemma race_ok_update:
  assumes "race_ok p s q r (st, ts)"
    and "\<forall>d. t = Pending d \<longrightarrow> d = call_data p s q"
    and "\<forall>i n. t = Loaded i n \<longrightarrow> n = q \<and> (\<exists>y. i = r\<lparr>reserved := y\<rparr> \<and> 0 \<le> y)"
    and "\<exists>x. filter_first st' (JInt p) (JInt s) = Inr (Some (r\<lparr>reserved := x\<rparr>))
           \<and> 0 \<le> x \<and> x \<le> stock r"
  shows "race_ok p s q r (st', ts[i := t])"
proof -
  have "set (ts[i := t]) \<subseteq> insert t (set ts)" by (rule set_update_subset_insert)
  then show ?thesis using assms unfolding race_ok_def by (simp add: subset_iff) blast
qed

lemma step_race_ok:
  assumes nz: "p \<noteq> 0" "s \<noteq> 0" "0 < q" and ok: "race_ok p s q r cfg"
  shows "race_ok p s q r (step i cfg)"
proof -
  obtain st ts where cfg: "cfg = (st, ts)" by (cases cfg)
  from ok cfg obtain x where x: "filter_first st (JInt p) (JInt s) = Inr (Some (r\<lparr>reserved := x\<rparr>))"
    "0 \<le> x" "x \<le> stock r"
    unfolding race_ok_def by auto
  have same: "\<exists>x. filter_first st (JInt p) (JInt s) = Inr (Some (r\<lparr>reserved := x\<rparr>))
           \<and> 0 \<le> x \<and> x \<le> stock r" using x by blast
  show ?thesis
  proof (cases "i < length ts")
    case False
    then show ?thesis using ok cfg by (simp add: step_def)
  next
    case True
    then have mem: "ts ! i \<in> set ts" by simp
    show ?thesis
    proof (cases "ts ! i")
      case (Pending d)
      then have "d = call_data p s q" using ok cfg mem unfolding race_ok_def by auto
      then have l: "load_record st d = Inr (r\<lparr>reserved := x\<rparr>, q)"
        using load_record_found [OF nz x(1)] by simp
      have "step i cfg = (st, ts[i := Loaded (r\<lparr>reserved := x\<rparr>) q])"
        using True Pending l cfg by (simp add: step_def)
      moreover have "race_ok p s q r (st, ts[i := Loaded (r\<lparr>reserved := x\<rparr>) q])"
        using ok cfg same x(2) by (intro race_ok_update) auto
      ultimately show ?thesis by simp
    next
      case (Loaded obj n)
      from ok cfg have "\<forall>t \<in> set ts. \<forall>i n. t = Loaded i n \<longrightarrow>
          n = q \<and> (\<exists>y. i = r\<lparr>reserved := y\<rparr> \<and> 0 \<le> y)"
        by (simp add: race_ok_def)
      then have "n = q \<and> (\<exists>y. obj = r\<lparr>reserved := y\<rparr> \<and> 0 \<le> y)"
        using mem Loaded by simp
      then obtain y where y: "n = q" "obj = r\<lparr>reserved := y\<rparr>" "0 \<le> y"
        by blast
      show ?thesis
      proof (cases "available obj < q")
        case True
        then have "step i cfg = (st, ts[i := Done (Response 400 (Detail ''Not enough available stock''))])"
          using \<open>i < length ts\<close> Loaded y cfg by (simp add: step_def reserve_apply_def)
        moreover have "race_ok p s q r (st, ts[i := Done (Response 400 (Detail ''Not enough available stock''))])"
          using ok cfg same by (intro race_ok_update) auto
        ultimately show ?thesis by simp
      next
        case False
        let ?obj' = "r\<lparr>reserved := y + q\<rparr>"
        have b: "y + q \<le> stock r" "0 \<le> y + q"
          using False y nz(3) by (auto simp: available_def)
        have "step i cfg = (save ?obj' st, ts[i := Done (Response 200 (serialize ?obj'))])"
          using \<open>i < length ts\<close> Loaded y cfg False by (simp add: step_def reserve_apply_def Let_def)
        moreover have "filter_first (save ?obj' st) (JInt p) (JInt s) = Inr (Some ?obj')"
          using x(1) by (rule filter_first_save) simp_all
        then have "race_ok p s q r (save ?obj' st, ts[i := Done (Response 200 (serialize ?obj'))])"
          using ok cfg b by (intro race_ok_update) auto
        ultimately show ?thesis by simp
      qed
    next
      case (Done out)
      then show ?thesis using ok cfg True by (simp add: step_def)
    qed
  qed
qed

lemma run_race_ok:
  assumes "p \<noteq> 0" "s \<noteq> 0" "0 < q" "race_ok p s q r cfg"
  shows "race_ok p s q r (run sched cfg)"
  using assms(4) unfolding run_def
  by (induction sched arbitrary: cfg) (simp_all add: step_race_ok [OF assms(1-3)])

lemma race_ok_initial:
  assumes "filter_first st (JInt p) (JInt s) = Inr (Some r)" "reserved r = 0" "0 \<le> stock r"
  shows "race_ok p s q r (st, replicate n (Pending (call_data p s q)))"
proof -
  have "r\<lparr>reserved := 0\<rparr> = r" using assms(2) by simp
  then have "filter_first st (JInt p) (JInt s) = Inr (Some (r\<lparr>reserved := 0\<rparr>))"
    using assms(1) by simp
  then show ?thesis using assms(3) unfolding race_ok_def by auto
qed

lemma race_never_oversells:
  assumes "p \<noteq> 0" "s \<noteq> 0" "0 < q"
    and "filter_first st (JInt p) (JInt s) = Inr (Some r)" "reserved r = 0" "0 \<le> stock r"
  shows "\<exists>r'. filter_first (fst (run sched (st, replicate n (Pending (call_data p s q)))))
                 (JInt p) (JInt s) = Inr (Some r')
            \<and> 0 \<le> reserved r' \<and> reserved r' \<le> stock r \<and> stock r' = stock r"
proof -
  have "race_ok p s q r (run sched (st, replicate n (Pending (call_data p s q))))"
    using assms by (intro run_race_ok race_ok_initial)
  then show ?thesis unfolding race_ok_def by auto
qed

text \<open>The serial schedule runs the calls one after another.\<close>

lemma step_twice:
  assumes "i = length fin"
  shows "step i (step i (st, fin @ Pending d # rest)) =
           (fst (reserve st d), fin @ Done (snd (reserve st d)) # rest)"
proof (cases "load_record st d")
  case (Inl e)
  then show ?thesis using assms by (simp add: step_def reserve_def nth_append)
next
  case (Inr a)
  obtain r q where "a = (r, q)" by (cases a)
  then show ?thesis using assms Inr
    by (simp add: step_def reserve_def nth_append split: prod.splits)
qed

lemma serial_from:
  "run (concat (map (\<lambda>i. [i, i]) [k..<k + n])) (st, fin @ replicate n (Pending d)) =
     (fst (reserve_seq n st d), fin @ map Done (snd (reserve_seq n st d)))"
  if "k = length fin"
  using that
proof (induction n arbitrary: k st fin)
  case 0
  then show ?case by (simp add: run_def)
next
  case (Suc n)
  have up: "[k..<k + Suc n] = k # [Suc k..<Suc k + n]"
    by (simp add: upt_conv_Cons)
  have "run (concat (map (\<lambda>i. [i, i]) [k..<k + Suc n])) (st, fin @ replicate (Suc n) (Pending d))
      = run (concat (map (\<lambda>i. [i, i]) [Suc k..<Suc k + n]))
          (step k (step k (st, fin @ Pending d # replicate n (Pending d))))"
    unfolding up by (simp add: run_def)
  also have "\<dots> = run (concat (map (\<lambda>i. [i, i]) [Suc k..<Suc k + n]))
          (fst (reserve st d), (fin @ [Done (snd (reserve st d))]) @ replicate n (Pending d))"
    using step_twice [OF Suc.prems] by simp
  also have "\<dots> = (fst (reserve_seq n (fst (reserve st d)) d),
        (fin @ [Done (snd (reserve st d))]) @ map Done (snd (reserve_seq n (fst (reserve st d)) d)))"
    using Suc.prems by (intro Suc.IH) simp
  finally show ?case by (simp split: prod.splits)
qed

lemma run_serial:
  "run (serial n) (st, replicate n (Pending d)) =
     (fst (reserve_seq n st d), map Done (snd (reserve_seq n st d)))"
  using serial_from [where k = 0 and fin = "[]" and n = n] by (simp add: serial_def)

lemma outcomes_map_Done: "outcomes (map Done outs) = outs"
  by (induction outs) simp_all

lemma reserve_seq_count:
  assumes "p \<noteq> 0" "s \<noteq> 0" "0 < q"
    and "filter_first st (JInt p) (JInt s) = Inr (Some r)"
  shows "length (snd (reserve_seq n st (call_data p s q))) = n
       \<and> length (filter succeeded (snd (reserve_seq n st (call_data p s q))))
           = min n (nat ((stock r - reserved r) div q))
       \<and> (\<forall>out \<in> set (snd (reserve_seq n st (call_data p s q))).
            \<not> succeeded out \<longrightarrow> out = Response 400 (Detail ''Not enough available stock''))"
  using assms(4)
proof (induction n arbitrary: st r)
  case 0
  then show ?case by simp
next
  case (Suc n)
  let ?d = "call_data p s q"
  have l: "load_record st ?d = Inr (r, q)"
    using assms(1-3) Suc.prems by (rule load_record_found)
  show ?case
  proof (cases "available r < q")
    case True
    then have r: "reserve st ?d = (st, Response 400 (Detail ''Not enough available stock''))"
      by (simp add: reserve_def l reserve_apply_def)
    have "stock r - reserved r < q" using True by (simp add: available_def)
    then have "(stock r - reserved r) div q \<le> 0"
      using assms(3) div_pos_pos_trivial [of "stock r - reserved r" q]
        pos_imp_zdiv_neg_iff [of q "stock r - reserved r"]
      by (cases "0 \<le> stock r - reserved r") simp_all
    then have z: "nat ((stock r - reserved r) div q) = 0" by simp
    obtain st' outs where e: "reserve_seq n st ?d = (st', outs)"
      by (cases "reserve_seq n st ?d")
    show ?thesis using Suc.IH [OF Suc.prems] r z e by simp
  next
    case False
    let ?r' = "r\<lparr>reserved := reserved r + q\<rparr>"
    have r: "reserve st ?d = (save ?r' st, Response 200 (serialize ?r'))"
      using False by (simp add: reserve_def l reserve_apply_def Let_def)
    have f: "filter_first (save ?r' st) (JInt p) (JInt s) = Inr (Some ?r')"
      using Suc.prems by (rule filter_first_save) simp_all
    have ge: "q \<le> stock r - reserved r" using False assms(3) by (simp add: available_def)
    have "(stock r - reserved r) div q = (stock r - reserved r - q) div q + 1"
      using assms(3) div_add_self2 [of q "stock r - reserved r - q"] by simp
    moreover have "0 \<le> (stock r - reserved r - q) div q"
      using ge assms(3) by (simp add: pos_imp_zdiv_nonneg_iff)
    ultimately have z: "nat ((stock r - reserved r) div q)
        = Suc (nat ((stock ?r' - reserved ?r') div q))"
      by (simp add: algebra_simps nat_add_distrib)
    obtain st' outs where e: "reserve_seq n (save ?r' st) ?d = (st', outs)"
      by (cases "reserve_seq n (save ?r' st) ?d")
    show ?thesis using Suc.IH [OF f] r z e by (simp add: serialize_def)
  qed
qed

text \<open>
  Claim C1, as the code has it. Take a record with stock \<open>S \<ge> 0\<close> and reserved 0,
  both identifiers not zero, and \<open>n\<close> calls \<^verbatim>\<open>reserve(p, s, q)\<close> with \<open>q > 0\<close>. The
  handler reads the row and writes it back in two separate steps, with no lock and no
  transaction. Under every interleaving of these steps the stored reserved count stays
  between 0 and \<open>S\<close> and the stock stays \<open>S\<close>. When the calls run one after another,
  exactly \<open>min n (S div q)\<close> of them succeed and every other one is answered with
  status 400 "Not enough available stock".
\<close>

theorem reserve_race:
  assumes "p \<noteq> 0" "s \<noteq> 0" "0 < q"
    and "filter_first st (JInt p) (JInt s) = Inr (Some r)" "reserved r = 0" "0 \<le> stock r"
  shows "(\<exists>r'. filter_first (fst (run sched (st, replicate n (Pending (call_data p s q)))))
                 (JInt p) (JInt s) = Inr (Some r')
              \<and> 0 \<le> reserved r' \<and> reserved r' \<le> stock r \<and> stock r' = stock r)
       \<and> length (outcomes (snd (run (serial n) (st, replicate n (Pending (call_data p s q)))))) = n
       \<and> length (filter succeeded
            (outcomes (snd (run (serial n) (st, replicate n (Pending (call_data p s q)))))))
           = min n (nat (stock r div q))
       \<and> (\<forall>out \<in> set (outcomes (snd (run (serial n) (st, replicate n (Pending (call_data p s q)))))).
            \<not> succeeded out \<longrightarrow> out = Response 400 (Detail ''Not enough available stock''))"
proof -
  have "outcomes (snd (run (serial n) (st, replicate n (Pending (call_data p s q)))))
          = snd (reserve_seq n st (call_data p s q))"
    by (simp add: run_serial outcomes_map_Done)
  then show ?thesis
    using race_never_oversells [OF assms, of sched n] reserve_seq_count [OF assms(1-4), of n] assms(5)
    by simp
qed

text \<open>
  Stock 1, two calls for 1 unit each: both read reserved 0 before either writes, both
  pass the check and both succeed, where \<open>S div q = 1\<close>.
\<close>

theorem reserve_race_counterexample:
  "filter_first [row 10 5 1 0] (JInt 10) (JInt 5) = Inr (Some (row 10 5 1 0))
   \<and> outcomes (snd (run [0, 1, 0, 1] ([row 10 5 1 0], replicate 2 (Pending (call_data 10 5 1)))))
       = [Response 200 (Data (row 10 5 1 1) 0), Response 200 (Data (row 10 5 1 1) 0)]
   \<and> stock (row 10 5 1 0) div 1 = 1"
  by (simp add: run_def step_def load_record_call reserve_apply_def numeral_2_eq_2
        filter_first_def row_def save_def serialize_def get_available_def available_def Let_def)

theorem reserve_race_witness:
  "(\<exists>r'. filter_first (fst (run [0, 1, 0, 1] ([row 10 5 1 0], replicate 2 (Pending (call_data 10 5 1)))))
            (JInt 10) (JInt 5) = Inr (Some r') \<and> reserved r' \<le> 1)
   \<and> length (filter succeeded
        (outcomes (snd (run (serial 2) ([row 10 5 1 0], replicate 2 (Pending (call_data 10 5 1)))))))
       = 1"
  using reserve_race [where p = 10 and s = 5 and q = 1 and st = "[row 10 5 1 0]"
      and r = "row 10 5 1 0" and n = 2 and sched = "[0, 1, 0, 1]"]
  by (auto simp: filter_first_def row_def)

end
